theory Spec2Isabelle
  imports Main "HOL-Library.Char_ord" "HOL-Library.List_Lexorder" "HOL-Library.AList"
begin

section \<open>Usage tracker (services/usage\_tracker.py)\<close>

text \<open>
  The usage file holds a JSON object that maps a date key (\<open>YYYY-MM-DD\<close>) to a bucket,
  and a bucket maps an identity key (\<open>user:<id>\<close> or \<open>ip:<addr>\<close>) to a count. Both
  Python dicts are maps; counts are Python ints. A file that parses is taken to have this
  shape, the one \<open>_save_usage_data\<close> writes.
\<close>

type_synonym bucket = "string \<rightharpoonup> int"
type_synonym ledger = "string \<rightharpoonup> bucket"

text \<open>
  What is at \<open>self.usage_file\<close>: nothing, text that \<open>json.load\<close> rejects with
  \<open>JSONDecodeError\<close>, or a stored ledger.
\<close>

datatype usage_file = Missing | Unparsable | Stored ledger

datatype exn = PermissionError | OSError | AttributeError | TypeError

text \<open>
  How \<open>open(self.usage_file, 'w')\<close> followed by \<open>json.dump\<close> can end: both succeed; \<open>open\<close>
  raises (permission denied: the file is not touched); \<open>open\<close> has truncated the file and the
  write raises before the document is complete (disk full: what is left does not parse).
\<close>

datatype write_fault = WriteOk | OpenFails | DumpFails

text \<open>
  The environment of one call: the two strings that \<open>datetime.now(timezone.utc)\<close> and
  \<open>strftime('%Y-%m-%d')\<close> produce (today, and today minus seven days), whether opening the
  existing file for reading raises an \<open>OSError\<close> other than \<open>FileNotFoundError\<close>, and
  how the save ends.
\<close>

record env =
  today_key :: string
  cutoff_key :: string
  read_denied :: bool
  save_fault :: write_fault

datatype user_type = anonymous | authenticated

fun limits :: "user_type \<Rightarrow> int" where
  "limits anonymous = 1"
| "limits authenticated = 5"

text \<open>\<open>_load_usage_data\<close>: only \<open>FileNotFoundError\<close> and \<open>JSONDecodeError\<close> are caught.\<close>

definition load_usage_data :: "env \<Rightarrow> usage_file \<Rightarrow> exn + ledger" where
  "load_usage_data e f =
     (case f of
        Missing \<Rightarrow> Inr Map.empty
      | Unparsable \<Rightarrow> if read_denied e then Inl PermissionError else Inr Map.empty
      | Stored d \<Rightarrow> if read_denied e then Inl PermissionError else Inr d)"

text \<open>\<open>_save_usage_data\<close>: every exception is caught and logged, nothing is raised.\<close>

definition save_usage_data :: "env \<Rightarrow> ledger \<Rightarrow> usage_file \<Rightarrow> usage_file" where
  "save_usage_data e d f =
     (case save_fault e of
        WriteOk \<Rightarrow> Stored d
      | OpenFails \<Rightarrow> f
      | DumpFails \<Rightarrow> Unparsable)"

definition get_today_key :: "env \<Rightarrow> string" where
  "get_today_key e = today_key e"

text \<open>\<open>_cleanup_old_data\<close>: keeps the entries with \<open>date_key >= cutoff_key\<close> (string order).\<close>

definition cleanup_old_data :: "env \<Rightarrow> ledger \<Rightarrow> ledger" where
  "cleanup_old_data e d = (\<lambda>date_key. if cutoff_key e \<le> date_key then d date_key else None)"

text \<open>Python's \<open>if user_id:\<close> on an \<open>Optional[str]\<close>, and \<open>f"{x}"\<close> on one.\<close>

fun truthy :: "string option \<Rightarrow> bool" where
  "truthy None = False"
| "truthy (Some s) = (s \<noteq> [])"

fun fmt :: "string option \<Rightarrow> string" where
  "fmt None = ''None''"
| "fmt (Some s) = s"

definition user_type_of :: "string option \<Rightarrow> user_type" where
  "user_type_of user_id = (if truthy user_id then authenticated else anonymous)"

definition identity_key :: "string option \<Rightarrow> string option \<Rightarrow> string" where
  "identity_key user_id ip_address =
     (if truthy user_id then ''user:'' @ fmt user_id else ''ip:'' @ fmt ip_address)"

text \<open>\<open>d.get(k, {})\<close> and \<open>d.get(k, 0)\<close>.\<close>

definition get_bucket :: "ledger \<Rightarrow> string \<Rightarrow> bucket" where
  "get_bucket d k = (case d k of None \<Rightarrow> Map.empty | Some b \<Rightarrow> b)"

definition get_count :: "bucket \<Rightarrow> string \<Rightarrow> int" where
  "get_count b k = (case b k of None \<Rightarrow> 0 | Some c \<Rightarrow> c)"

text \<open>
  \<open>check_usage_limit\<close>. It only reads; the file is returned as it was found, so that what is
  stored after a check can be stated.
\<close>

definition check_usage_limit ::
  "env \<Rightarrow> string option \<Rightarrow> string option \<Rightarrow> usage_file \<Rightarrow> (exn + bool \<times> int \<times> int) \<times> usage_file" where
  "check_usage_limit e user_id ip_address f =
     (case load_usage_data e f of
        Inl x \<Rightarrow> (Inl x, f)
      | Inr loaded \<Rightarrow>
          let data = cleanup_old_data e loaded;
              today_data = get_bucket data (get_today_key e);
              current_usage = get_count today_data (identity_key user_id ip_address);
              limit = limits (user_type_of user_id);
              can_generate = (current_usage < limit)
          in (Inr (can_generate, current_usage, limit), f))"

text \<open>
  \<open>increment_usage\<close>, after its first line has loaded the file: the rest of the body, on the
  loaded dict. \<open>today_data\<close> is the very dict stored under today's key, so the assignment to
  it changes \<open>data\<close>.
\<close>

definition increment_loaded ::
  "env \<Rightarrow> string option \<Rightarrow> string option \<Rightarrow> ledger \<Rightarrow> usage_file \<Rightarrow> bool \<times> usage_file" where
  "increment_loaded e user_id ip_address loaded f =
     (let data = cleanup_old_data e loaded;
          today_data = get_bucket data (get_today_key e);
          k = identity_key user_id ip_address;
          current_usage = get_count today_data k;
          limit = limits (user_type_of user_id)
      in if current_usage \<ge> limit then (False, f)
         else (True, save_usage_data e (data(get_today_key e \<mapsto> today_data(k \<mapsto> current_usage + 1))) f))"

definition increment_usage ::
  "env \<Rightarrow> string option \<Rightarrow> string option \<Rightarrow> usage_file \<Rightarrow> (exn + bool) \<times> usage_file" where
  "increment_usage e user_id ip_address f =
     (case load_usage_data e f of
        Inl x \<Rightarrow> (Inl x, f)
      | Inr loaded \<Rightarrow>
          (case increment_loaded e user_id ip_address loaded f of (r, f') \<Rightarrow> (Inr r, f')))"

text \<open>
  \<open>reset_usage\<close>: the whole body is inside \<open>try\<close>, an exception gives \<open>False\<close>. The file is
  saved whenever today's bucket exists, whether or not the key was in it.
\<close>

definition reset_usage ::
  "env \<Rightarrow> string option \<Rightarrow> string option \<Rightarrow> usage_file \<Rightarrow> bool \<times> usage_file" where
  "reset_usage e user_id ip_address f =
     (case load_usage_data e f of
        Inl x \<Rightarrow> (False, f)
      | Inr data \<Rightarrow>
          (case data (get_today_key e) of
             None \<Rightarrow> (True, f)
           | Some today_data \<Rightarrow>
               let k = identity_key user_id ip_address;
                   today_data' = (if today_data k \<noteq> None then today_data(k := None) else today_data)
               in (True, save_usage_data e (data(get_today_key e \<mapsto> today_data')) f)))"

text \<open>The count the file holds for an identity under today's key (0 when there is none).\<close>

definition stored_count :: "env \<Rightarrow> string option \<Rightarrow> string option \<Rightarrow> usage_file \<Rightarrow> int" where
  "stored_count e user_id ip_address f =
     (case f of
        Stored d \<Rightarrow> get_count (get_bucket d (get_today_key e)) (identity_key user_id ip_address)
      | _ \<Rightarrow> 0)"

text \<open>
  What the file holds under a date key and an identity key: the count, or nothing when the
  file holds no ledger, no bucket for the date, or no entry for the identity in the bucket.
\<close>

definition stored_entry :: "usage_file \<Rightarrow> string \<Rightarrow> string \<Rightarrow> int option" where
  "stored_entry f date_key k =
     (case f of
        Stored d \<Rightarrow> (case d date_key of None \<Rightarrow> None | Some b \<Rightarrow> b k)
      | _ \<Rightarrow> None)"

text \<open>Whether the file holds a bucket under a date key.\<close>

definition has_bucket :: "usage_file \<Rightarrow> string \<Rightarrow> bool" where
  "has_bucket f k = (case f of Stored d \<Rightarrow> d k \<noteq> None | _ \<Rightarrow> False)"

text \<open>\<open>n\<close> calls of \<open>increment_usage\<close> one after the other, with their results in order.\<close>

fun increment_usage_n ::
  "nat \<Rightarrow> env \<Rightarrow> string option \<Rightarrow> string option \<Rightarrow> usage_file \<Rightarrow> (exn + bool) list \<times> usage_file" where
  "increment_usage_n 0 e user_id ip_address f = ([], f)"
| "increment_usage_n (Suc n) e user_id ip_address f =
     (case increment_usage e user_id ip_address f of
        (r, f') \<Rightarrow> (case increment_usage_n n e user_id ip_address f' of (rs, f'') \<Rightarrow> (r # rs, f'')))"

subsection \<open>Interleaved calls\<close>

datatype commit_thread = Ready | Loaded ledger | Finished "exn + bool"

definition thread_step ::
  "env \<Rightarrow> string option \<Rightarrow> string option \<Rightarrow> commit_thread \<Rightarrow> usage_file \<Rightarrow> commit_thread \<times> usage_file" where
  "thread_step e user_id ip_address t f =
     (case t of
        Ready \<Rightarrow> (case load_usage_data e f of
                    Inl x \<Rightarrow> (Finished (Inl x), f)
                  | Inr loaded \<Rightarrow> (Loaded loaded, f))
      | Loaded loaded \<Rightarrow> (case increment_loaded e user_id ip_address loaded f of
                    (r, f') \<Rightarrow> (Finished (Inr r), f'))
      | Finished r \<Rightarrow> (Finished r, f))"

fun run_schedule ::
  "env \<Rightarrow> string option \<Rightarrow> string option \<Rightarrow> nat list \<Rightarrow> commit_thread list \<Rightarrow> usage_file
     \<Rightarrow> commit_thread list \<times> usage_file" where
  "run_schedule e user_id ip_address [] ts f = (ts, f)"
| "run_schedule e user_id ip_address (n # ns) ts f =
     (if n < length ts
      then (case thread_step e user_id ip_address (ts ! n) f of
              (t', f') \<Rightarrow> run_schedule e user_id ip_address ns (ts[n := t']) f')
      else run_schedule e user_id ip_address ns ts f)"

definition env_ok :: env where
  "env_ok = \<lparr>today_key = ''2024-03-10'', cutoff_key = ''2024-03-03'', read_denied = False, save_fault = WriteOk\<rparr>"

definition env_denied :: env where
  "env_denied = env_ok\<lparr>read_denied := True\<rparr>"

definition env_disk_full :: env where
  "env_disk_full = env_ok\<lparr>save_fault := DumpFails\<rparr>"

definition ip_a :: "string option" where
  "ip_a = Some ''203.0.113.5''"

definition file_empty :: usage_file where
  "file_empty = Stored Map.empty"

definition file_ip_used :: usage_file where
  "file_ip_used = Stored [''2024-03-10'' \<mapsto> [''ip:203.0.113.5'' \<mapsto> 1]]"

definition file_old_bucket :: usage_file where
  "file_old_bucket = Stored [''2024-01-01'' \<mapsto> [''ip:203.0.113.5'' \<mapsto> 1]]"

definition file_two_ids :: usage_file where
  "file_two_ids =
     Stored [''2024-03-10'' \<mapsto> [''user:u1'' \<mapsto> 2, ''ip:203.0.113.5'' \<mapsto> 1],
             ''2024-03-09'' \<mapsto> [''ip:203.0.113.5'' \<mapsto> 1]]"

definition file_u1_two :: usage_file where
  "file_u1_two = Stored [''2024-03-10'' \<mapsto> [''user:u1'' \<mapsto> 2]]"

section \<open>Persistent storage (services/persistent\_storage.py)\<close>

text \<open>
  What \<open>json.load\<close> returns and \<open>json.dump\<close> writes. A Python dict is an association list
  read through \<open>map_of\<close> and written through \<open>AList.update\<close> (a new key goes to the end, as
  in a dict). Numbers are the integers; no operation below looks at a number.
\<close>

datatype json =
  JNull | JBool bool | JNum int | JStr string | JArr "json list" | JObj "(string \<times> json) list"

text \<open>
  A file holds a JSON document, or bytes that make \<open>open\<close> or \<open>json.load\<close> raise. The file
  system is the list of the paths that exist with what they hold; paths are compared as
  strings.
\<close>

datatype content = Garbage | Doc json

type_synonym fs = "(string \<times> content) list"

record persistent_storage =
  data_dir :: string
  images_file :: string
  users_file :: string
  generations_file :: string
  backup_dir :: string

text \<open>The step of \<open>_write_json_atomic\<close> at which the operating system raises, if any.\<close>

datatype fault = NoFault | TempOpenFails | TempDumpFails | BackupReplaceFails | FinalReplaceFails

definition temp_path :: "string \<Rightarrow> string" where
  "temp_path file_path = file_path @ ''.tmp''"

definition backup_path :: "string \<Rightarrow> string" where
  "backup_path file_path = file_path @ ''.backup''"

definition path_exists :: "fs \<Rightarrow> string \<Rightarrow> bool" where
  "path_exists files p = (map_of files p \<noteq> None)"

text \<open>
  \<open>os.replace(src, dst)\<close>: \<open>dst\<close> gets what \<open>src\<close> held and \<open>src\<close> is gone. Both calls in
  \<open>_write_json_atomic\<close> have a source that path_exists.
\<close>

definition os_replace :: "string \<Rightarrow> string \<Rightarrow> fs \<Rightarrow> fs" where
  "os_replace src dst files =
     (case map_of files src of
        None \<Rightarrow> files
      | Some c \<Rightarrow> if src = dst then files else AList.delete src (AList.update dst c files))"

text \<open>
  The three steps of \<open>_write_json_atomic\<close> when nothing raises, and its \<open>except\<close> block,
  which removes the temporary file if there is one.
\<close>

definition write_step1 :: "string \<Rightarrow> json \<Rightarrow> fs \<Rightarrow> fs" where
  "write_step1 file_path data files = AList.update (temp_path file_path) (Doc data) files"

definition write_step2 :: "string \<Rightarrow> fs \<Rightarrow> fs" where
  "write_step2 file_path files =
     (if path_exists files file_path then os_replace file_path (backup_path file_path) files else files)"

definition write_step3 :: "string \<Rightarrow> fs \<Rightarrow> fs" where
  "write_step3 file_path files = os_replace (temp_path file_path) file_path files"

definition write_except :: "string \<Rightarrow> fs \<Rightarrow> fs" where
  "write_except file_path files =
     (if path_exists files (temp_path file_path) then AList.delete (temp_path file_path) files else files)"

text \<open>
  \<open>_write_json_atomic\<close>. The result is the exception that leaves the function, if any, with
  the file system as the call leaves it. A failed \<open>open\<close> of the temporary file changes
  nothing; a failed \<open>json.dump\<close> leaves a temporary file that does not parse.
\<close>

definition write_json_atomic :: "fault \<Rightarrow> string \<Rightarrow> json \<Rightarrow> fs \<Rightarrow> exn option \<times> fs" where
  "write_json_atomic flt file_path data files =
     (if flt = TempOpenFails then (Some OSError, write_except file_path files)
      else if flt = TempDumpFails
      then (Some OSError, write_except file_path (AList.update (temp_path file_path) Garbage files))
      else
        let files1 = write_step1 file_path data files in
        if flt = BackupReplaceFails \<and> path_exists files1 file_path
        then (Some OSError, write_except file_path files1)
        else
          let files2 = write_step2 file_path files1 in
          if flt = FinalReplaceFails then (Some OSError, write_except file_path files2)
          else (None, write_step3 file_path files2))"

text \<open>
  \<open>_read_json_safe\<close>. The backup is read inside the \<open>except\<close> block, so only when reading
  the file raised; a file that does not exist raises nothing.
\<close>

definition read_json_safe :: "string \<Rightarrow> json option \<Rightarrow> fs \<Rightarrow> json" where
  "read_json_safe file_path dflt files =
     (let fallback = (case dflt of None \<Rightarrow> JArr [] | Some d \<Rightarrow> d) in
      case map_of files file_path of
        None \<Rightarrow> fallback
      | Some (Doc j) \<Rightarrow> j
      | Some Garbage \<Rightarrow>
          (case map_of files (backup_path file_path) of
             Some (Doc j) \<Rightarrow> j
           | _ \<Rightarrow> fallback))"

text \<open>\<open>s.endswith(suf)\<close>, \<open>s.startswith(pre)\<close>, \<open>os.path.join(d, name)\<close>, \<open>os.listdir(d)\<close>.\<close>

definition endswith :: "string \<Rightarrow> string \<Rightarrow> bool" where
  "endswith s suf = (length suf \<le> length s \<and> drop (length s - length suf) s = suf)"

definition startswith :: "string \<Rightarrow> string \<Rightarrow> bool" where
  "startswith s pre = (take (length pre) s = pre)"

definition path_join :: "string \<Rightarrow> string \<Rightarrow> string" where
  "path_join d name = d @ ''/'' @ name"

definition listdir :: "string \<Rightarrow> fs \<Rightarrow> string list" where
  "listdir d files =
     [name. p \<leftarrow> map fst files, startswith p (d @ ''/''),
            name \<leftarrow> [drop (length d + 1) p], name \<noteq> [], CHR ''/'' \<notin> set name]"

text \<open>
  \<open>_cleanup_old_backups\<close>: the names ending in \<open>.json\<close>, sorted in reverse, all but the first
  twenty removed.
\<close>

definition cleanup_old_backups :: "persistent_storage \<Rightarrow> fs \<Rightarrow> fs" where
  "cleanup_old_backups self files =
     (let backup_files = rev (sort [f \<leftarrow> listdir (backup_dir self) files. endswith f ''.json''])
      in fold (\<lambda>old_backup. AList.delete (path_join (backup_dir self) old_backup))
           (drop 20 backup_files) files)"

text \<open>
  \<open>_create_backup\<close>, at the time stamp \<open>datetime.utcnow().strftime('%Y%m%d_%H%M%S')\<close> gives.
  Its body is inside \<open>try ... except Exception\<close>: a write that raises ends it, and nothing
  is raised to the caller.
\<close>

record backup_env =
  timestamp :: string
  images_backup_fault :: fault
  generations_backup_fault :: fault

definition create_backup :: "persistent_storage \<Rightarrow> backup_env \<Rightarrow> fs \<Rightarrow> fs" where
  "create_backup self b files =
     (let images = read_json_safe (images_file self) (Some (JArr [])) files;
          backup_images_path = path_join (backup_dir self) (''images_'' @ timestamp b @ ''.json'')
      in case write_json_atomic (images_backup_fault b) backup_images_path images files of
           (Some x, files1) \<Rightarrow> files1
         | (None, files1) \<Rightarrow>
             let generations = read_json_safe (generations_file self) (Some (JArr [])) files1;
                 backup_gen_path =
                   path_join (backup_dir self) (''generations_'' @ timestamp b @ ''.json'')
             in case write_json_atomic (generations_backup_fault b) backup_gen_path generations files1 of
                  (Some x, files2) \<Rightarrow> files2
                | (None, files2) \<Rightarrow> cleanup_old_backups self files2)"

text \<open>
  \<open>save_image\<close>: \<open>images.append\<close> raises \<open>AttributeError\<close> when the file did not hold a
  list; every exception is logged and raised again.
\<close>

definition save_image ::
  "persistent_storage \<Rightarrow> fault \<Rightarrow> backup_env \<Rightarrow> (string \<times> json) list \<Rightarrow> fs \<Rightarrow> exn option \<times> fs" where
  "save_image self flt b image_metadata files =
     (case read_json_safe (images_file self) (Some (JArr [])) files of
        JArr loaded \<Rightarrow>
          let images = loaded @ [JObj image_metadata] in
          (case write_json_atomic flt (images_file self) (JArr images) files of
             (Some x, files1) \<Rightarrow> (Some x, files1)
           | (None, files1) \<Rightarrow>
               if length images mod 10 = 0 then (None, create_backup self b files1)
               else (None, files1))
      | _ \<Rightarrow> (Some AttributeError, files))"

text \<open>
  \<open>save_generation_record\<close>, at the two strings \<open>datetime.utcnow().isoformat()\<close> gives. The
  \<open>except\<close> block logs and does not raise: the function always returns.
\<close>

definition save_generation_record ::
  "persistent_storage \<Rightarrow> fault \<Rightarrow> string \<Rightarrow> string \<Rightarrow> string \<Rightarrow> string \<Rightarrow> (string \<times> json) list \<Rightarrow> fs
     \<Rightarrow> exn option \<times> fs" where
  "save_generation_record self flt now1 now2 user_id image_id params files =
     (case read_json_safe (generations_file self) (Some (JArr [])) files of
        JArr generations \<Rightarrow>
          let generation_record = JObj
                [(''id'', JStr (user_id @ ''#'' @ now1)),
                 (''user_id'', JStr user_id),
                 (''image_id'', JStr image_id),
                 (''timestamp'', JStr now2),
                 (''parameters'', JObj params)]
          in (case write_json_atomic flt (generations_file self)
                     (JArr (generations @ [generation_record])) files of
                (raised, files1) \<Rightarrow> (None, files1))
      | _ \<Rightarrow> (None, files))"

text \<open>
  \<open>update_image_favorite\<close>. The loop runs over the loaded list; \<open>seen\<close> holds the elements
  already passed, so that the list written is the loaded list with the matching dict
  changed in place. \<open>img.get\<close> on an element that is not a dict raises \<open>AttributeError\<close>, and
  every exception gives \<open>False\<close>.
\<close>

fun favorite_loop ::
  "fault \<Rightarrow> string \<Rightarrow> string \<Rightarrow> string \<Rightarrow> bool \<Rightarrow> json list \<Rightarrow> json list \<Rightarrow> fs \<Rightarrow> bool \<times> fs" where
  "favorite_loop flt file_path image_id user_id is_favorite seen [] files = (False, files)"
| "favorite_loop flt file_path image_id user_id is_favorite seen (img # rest) files =
     (case img of
        JObj kv \<Rightarrow>
          if map_of kv ''id'' = Some (JStr image_id) \<and> map_of kv ''user_id'' = Some (JStr user_id)
          then (case write_json_atomic flt file_path
                       (JArr (seen @ JObj (AList.update ''is_favorite'' (JBool is_favorite) kv) # rest))
                       files of
                  (None, files1) \<Rightarrow> (True, files1)
                | (Some x, files1) \<Rightarrow> (False, files1))
          else favorite_loop flt file_path image_id user_id is_favorite (seen @ [img]) rest files
      | _ \<Rightarrow> (False, files))"

definition update_image_favorite ::
  "persistent_storage \<Rightarrow> fault \<Rightarrow> string \<Rightarrow> string \<Rightarrow> bool \<Rightarrow> fs \<Rightarrow> bool \<times> fs" where
  "update_image_favorite self flt image_id user_id is_favorite files =
     (case read_json_safe (images_file self) (Some (JArr [])) files of
        JArr images \<Rightarrow>
          favorite_loop flt (images_file self) image_id user_id is_favorite [] images files
      | _ \<Rightarrow> (False, files))"

text \<open>
  \<open>get_all_images\<close>. Its log line takes \<open>len(images)\<close>, which raises \<open>TypeError\<close> when the
  file held \<open>null\<close>, a number or a boolean; nothing catches it.
\<close>

definition get_all_images :: "persistent_storage \<Rightarrow> fs \<Rightarrow> exn + json" where
  "get_all_images self files =
     (case read_json_safe (images_file self) (Some (JArr [])) files of
        JNull \<Rightarrow> Inl TypeError
      | JBool b \<Rightarrow> Inl TypeError
      | JNum n \<Rightarrow> Inl TypeError
      | images \<Rightarrow> Inr images)"

subsection \<open>Sample inputs\<close>

definition store :: persistent_storage where
  "store = \<lparr>data_dir = ''data/persistent'',
            images_file = ''data/persistent/images.json'',
            users_file = ''data/persistent/users.json'',
            generations_file = ''data/persistent/generations.json'',
            backup_dir = ''data/persistent/backups''\<rparr>"

definition image_a :: json where
  "image_a = JObj [(''id'', JStr ''img-1''), (''user_id'', JStr ''alice''), (''is_favorite'', JBool False)]"

definition image_b :: json where
  "image_b = JObj [(''id'', JStr ''img-2''), (''user_id'', JStr ''bob''), (''is_favorite'', JBool False)]"

definition fs_one_image :: fs where
  "fs_one_image = [(''data/persistent/images.json'', Doc (JArr [image_a]))]"

definition fs_with_backup :: fs where
  "fs_with_backup =
     [(''data/persistent/images.json'', Doc (JArr [image_a, image_b])),
      (''data/persistent/images.json.backup'', Doc (JArr [image_a]))]"

definition fs_generations :: fs where
  "fs_generations = [(''data/persistent/generations.json'', Doc (JArr []))]"

definition fs_interrupted :: fs where
  "fs_interrupted =
     write_step2 (images_file store)
       (write_step1 (images_file store) (JArr [image_a, image_b]) fs_one_image)"

section \<open>Properties of the usage tracker\<close>

lemma loaded_count:
  assumes "\<not> read_denied e" "cutoff_key e \<le> today_key e"
  shows "\<exists>d. load_usage_data e f = Inr d \<and>
     get_count (get_bucket (cleanup_old_data e d) (get_today_key e)) (identity_key u i) = stored_count e u i f"
  using assms
  by (cases f) (simp_all add: load_usage_data_def stored_count_def cleanup_old_data_def
      get_bucket_def get_count_def get_today_key_def)

lemma increment_refused:
  assumes "\<not> read_denied e" "cutoff_key e \<le> today_key e"
    and "limits (user_type_of u) \<le> stored_count e u i f"
  shows "increment_usage e u i f = (Inr False, f)"
proof -
  from loaded_count[OF assms(1,2)] obtain d where
    d: "load_usage_data e f = Inr d"
    "get_count (get_bucket (cleanup_old_data e d) (get_today_key e)) (identity_key u i) = stored_count e u i f"
    by blast
  show ?thesis using d assms(3)
    by (simp add: increment_usage_def increment_loaded_def Let_def)
qed

lemma increment_accepted:
  assumes "\<not> read_denied e" "cutoff_key e \<le> today_key e" "save_fault e = WriteOk"
    and "stored_count e u i f < limits (user_type_of u)"
  shows "\<exists>f'. increment_usage e u i f = (Inr True, f') \<and> stored_count e u i f' = stored_count e u i f + 1"
proof -
  from loaded_count[OF assms(1,2)] obtain d where
    d: "load_usage_data e f = Inr d"
    "get_count (get_bucket (cleanup_old_data e d) (get_today_key e)) (identity_key u i) = stored_count e u i f"
    by blast
  show ?thesis using d assms(3,4)
    by (simp add: increment_usage_def increment_loaded_def Let_def save_usage_data_def
        stored_count_def get_bucket_def get_count_def)
qed

lemma increment_usage_n_seq:
  assumes "\<not> read_denied e" "cutoff_key e \<le> today_key e" "save_fault e = WriteOk"
  shows "increment_usage_n n e u i f = (rs, f') \<Longrightarrow>
     rs = replicate (min n (nat (limits (user_type_of u) - stored_count e u i f))) (Inr True)
          @ replicate (n - nat (limits (user_type_of u) - stored_count e u i f)) (Inr False)
     \<and> stored_count e u i f' = stored_count e u i f
          + int (min n (nat (limits (user_type_of u) - stored_count e u i f)))"
proof (induction n arbitrary: f rs f')
  case 0
  then show ?case by simp
next
  case (Suc n)
  let ?L = "limits (user_type_of u)"
  let ?c = "stored_count e u i f"
  show ?case
  proof (cases "?c < ?L")
    case True
    from increment_accepted[OF assms True] obtain f1 where
      f1: "increment_usage e u i f = (Inr True, f1)" "stored_count e u i f1 = ?c + 1" by blast
    obtain rs1 f2 where r: "increment_usage_n n e u i f1 = (rs1, f2)" by (cases "increment_usage_n n e u i f1")
    from Suc.prems f1 r have eq: "rs = Inr True # rs1" "f' = f2" by simp_all
    from Suc.IH[OF r] f1(2) have
      ih: "rs1 = replicate (min n (nat (?L - (?c + 1)))) (Inr True) @ replicate (n - nat (?L - (?c + 1))) (Inr False)"
          "stored_count e u i f2 = ?c + 1 + int (min n (nat (?L - (?c + 1))))" by simp_all
    have n1: "nat (?L - ?c) = Suc (nat (?L - (?c + 1)))" using True by linarith
    show ?thesis using eq ih n1 by simp
  next
    case False
    then have ge: "?L \<le> ?c" by simp
    from increment_refused[OF assms(1,2) ge] have f1: "increment_usage e u i f = (Inr False, f)" .
    obtain rs1 f2 where r: "increment_usage_n n e u i f = (rs1, f2)" by (cases "increment_usage_n n e u i f")
    from Suc.prems f1 r have eq: "rs = Inr False # rs1" "f' = f2" by simp_all
    have z: "nat (?L - ?c) = 0" using ge by simp
    from Suc.IH[OF r] z have
      ih: "rs1 = replicate n (Inr False)" "stored_count e u i f2 = ?c" by simp_all
    show ?thesis using eq ih z by simp
  qed
qed

lemmas tracker_defs = load_usage_data_def save_usage_data_def get_today_key_def cleanup_old_data_def
  user_type_of_def identity_key_def get_bucket_def get_count_def check_usage_limit_def
  increment_loaded_def increment_usage_def reset_usage_def stored_count_def has_bucket_def

lemmas sample_defs = env_ok_def env_denied_def env_disk_full_def ip_a_def file_empty_def
  file_two_ids_def
  file_ip_used_def file_old_bucket_def file_u1_two_def

lemma run_schedule_sequential:
  "run_schedule e u i [0, 0] [Ready] f = (case increment_usage e u i f of (r, f') \<Rightarrow> ([Finished r], f'))"
  by (simp add: thread_step_def increment_usage_def split: sum.splits prod.splits)

lemma count_list_replicate: "count_list (replicate k x) y = (if x = y then k else 0)"
  by (induction k) auto

text \<open>
  C2. When the file already holds, for the identity and today's key, a count at or above the
  identity's limit, \<open>increment_usage\<close> returns \<open>False\<close> and leaves the file as it was. In
  particular, from a file with no count for the identity, with saves that succeed, the first
  \<open>limit\<close> calls return \<open>True\<close>, the stored count is then \<open>limit\<close>, and the next call
  returns \<open>False\<close> and changes nothing.
\<close>

theorem increment_usage_refuses_at_limit:
  assumes "\<not> read_denied e" and "cutoff_key e \<le> today_key e"
  shows "(limits (user_type_of user_id) \<le> stored_count e user_id ip_address f \<longrightarrow>
            increment_usage e user_id ip_address f = (Inr False, f))
       \<and> (save_fault e = WriteOk \<and> stored_count e user_id ip_address f = 0 \<longrightarrow>
            fst (increment_usage_n (nat (limits (user_type_of user_id))) e user_id ip_address f)
              = replicate (nat (limits (user_type_of user_id))) (Inr True)
          \<and> stored_count e user_id ip_address
              (snd (increment_usage_n (nat (limits (user_type_of user_id))) e user_id ip_address f))
              = limits (user_type_of user_id)
          \<and> increment_usage e user_id ip_address
              (snd (increment_usage_n (nat (limits (user_type_of user_id))) e user_id ip_address f))
              = (Inr False, snd (increment_usage_n (nat (limits (user_type_of user_id))) e user_id ip_address f)))"
proof (intro conjI impI)
  assume "limits (user_type_of user_id) \<le> stored_count e user_id ip_address f"
  then show "increment_usage e user_id ip_address f = (Inr False, f)"
    by (rule increment_refused[OF assms])
next
  let ?L = "limits (user_type_of user_id)"
  let ?run = "increment_usage_n (nat ?L) e user_id ip_address f"
  assume a: "save_fault e = WriteOk \<and> stored_count e user_id ip_address f = 0"
  have pos: "0 \<le> ?L" by (cases "user_type_of user_id") simp_all
  have "?run = (fst ?run, snd ?run)" by simp
  from increment_usage_n_seq[OF assms(1,2) _ this] a pos
  have r: "fst ?run = replicate (nat ?L) (Inr True)"
    "stored_count e user_id ip_address (snd ?run) = ?L" by simp_all
  show "fst ?run = replicate (nat ?L) (Inr True)" by (rule r(1))
  show "stored_count e user_id ip_address (snd ?run) = ?L" by (rule r(2))
  show "increment_usage e user_id ip_address (snd ?run) = (Inr False, snd ?run)"
    by (rule increment_refused[OF assms]) (simp add: r(2))
qed

theorem increment_usage_refuses_at_limit_witness:
  "increment_usage env_ok None ip_a file_ip_used = (Inr False, file_ip_used)
   \<and> fst (increment_usage_n (nat (limits (user_type_of None))) env_ok None ip_a file_empty) = [Inr True]
   \<and> stored_count env_ok None ip_a
        (snd (increment_usage_n (nat (limits (user_type_of None))) env_ok None ip_a file_empty)) = 1"
  using increment_usage_refuses_at_limit [of env_ok None ip_a file_ip_used]
    increment_usage_refuses_at_limit [of env_ok None ip_a file_empty]
  by (simp add: sample_defs stored_count_def get_today_key_def get_bucket_def get_count_def
      identity_key_def user_type_of_def)

text \<open>
  \<open>UsageTracker\<close> takes no lock. Two calls for an anonymous address (limit 1) that both load
  the empty file before either saves both return \<open>True\<close>: two successes, not \<open>min 2 1\<close>.
\<close>

theorem interleaved_commits_counterexample:
  "count_list (fst (run_schedule env_ok None ip_a [0, 1, 0, 1] [Ready, Ready] file_empty))
      (Finished (Inr True)) = 2
   \<and> min 2 (limits (user_type_of None)) = 1"
  by (simp add: thread_step_def tracker_defs sample_defs)

text \<open>
  C3, amended. \<open>n\<close> calls of \<open>increment_usage\<close> for one identity that run one after the
  other, within one day and with no I/O failure, from a file with no count for the identity:
  exactly \<open>min n limit\<close> of them return \<open>True\<close>, the others return \<open>False\<close>, and the
  stored count is \<open>min n limit\<close> at the end.
\<close>

theorem sequential_commits:
  assumes "\<not> read_denied e" and "cutoff_key e \<le> today_key e" and "save_fault e = WriteOk"
    and "stored_count e user_id ip_address f = 0"
  shows "count_list (fst (increment_usage_n n e user_id ip_address f)) (Inr True)
           = min n (nat (limits (user_type_of user_id)))
       \<and> count_list (fst (increment_usage_n n e user_id ip_address f)) (Inr False)
           = n - min n (nat (limits (user_type_of user_id)))
       \<and> stored_count e user_id ip_address (snd (increment_usage_n n e user_id ip_address f))
           = min (int n) (limits (user_type_of user_id))"
proof -
  let ?L = "limits (user_type_of user_id)"
  let ?run = "increment_usage_n n e user_id ip_address f"
  have pos: "0 \<le> ?L" by (cases "user_type_of user_id") simp_all
  have "?run = (fst ?run, snd ?run)" by simp
  from increment_usage_n_seq[OF assms(1,2,3) this] assms(4)
  have r: "fst ?run = replicate (min n (nat ?L)) (Inr True) @ replicate (n - nat ?L) (Inr False)"
    "stored_count e user_id ip_address (snd ?run) = int (min n (nat ?L))" by simp_all
  show ?thesis using r pos by (auto simp: count_list_replicate min_def)
qed

theorem sequential_commits_witness:
  "count_list (fst (increment_usage_n 3 env_ok None ip_a file_empty)) (Inr True) = 1
   \<and> stored_count env_ok None ip_a (snd (increment_usage_n 3 env_ok None ip_a file_empty)) = 1"
  using sequential_commits [of env_ok None ip_a file_empty 3]
  by (simp add: sample_defs stored_count_def get_today_key_def get_bucket_def get_count_def
      identity_key_def user_type_of_def)

text \<open>
  A check writes nothing: a bucket older than the cutoff that the file holds is still in
  the file after the check.
\<close>

theorem check_keeps_old_bucket_counterexample:
  "has_bucket (snd (check_usage_limit env_ok None ip_a file_old_bucket)) ''2024-01-01''
   \<and> ''2024-01-01'' < cutoff_key env_ok
   \<and> fst (check_usage_limit env_ok None ip_a file_old_bucket) = Inr (True, 0, 1)"
  by (simp add: tracker_defs sample_defs)

text \<open>
  C6, amended. \<open>check_usage_limit\<close> and \<open>increment_usage\<close> drop the buckets whose key is
  below the cutoff key from the dict they have loaded, before they compute: a check leaves the
  file as it was and answers as it would on the cleaned ledger; a commit that does not return
  \<open>True\<close> leaves the file as it was; after a commit that returns \<open>True\<close> and whose save
  succeeds, the file holds no bucket whose key is below the cutoff key.
\<close>

theorem eviction_stored_by_accepted_commit:
  assumes "cutoff_key e \<le> today_key e"
  shows "snd (check_usage_limit e user_id ip_address f) = f
       \<and> fst (check_usage_limit e user_id ip_address (Stored d))
           = fst (check_usage_limit e user_id ip_address (Stored (cleanup_old_data e d)))
       \<and> (fst (increment_usage e user_id ip_address f) \<noteq> Inr True \<longrightarrow>
            snd (increment_usage e user_id ip_address f) = f)
       \<and> (fst (increment_usage e user_id ip_address f) = Inr True \<and> save_fault e = WriteOk
            \<and> has_bucket (snd (increment_usage e user_id ip_address f)) date_key \<longrightarrow>
            cutoff_key e \<le> date_key)"
proof (intro conjI impI)
  show "snd (check_usage_limit e user_id ip_address f) = f"
    by (simp add: check_usage_limit_def Let_def split: sum.splits)
  show "fst (check_usage_limit e user_id ip_address (Stored d))
           = fst (check_usage_limit e user_id ip_address (Stored (cleanup_old_data e d)))"
    by (simp add: check_usage_limit_def load_usage_data_def cleanup_old_data_def Let_def get_bucket_def)
  show "snd (increment_usage e user_id ip_address f) = f"
    if "fst (increment_usage e user_id ip_address f) \<noteq> Inr True"
    using that
    by (auto simp: increment_usage_def increment_loaded_def Let_def split: sum.splits if_splits)
  show "cutoff_key e \<le> date_key"
    if "fst (increment_usage e user_id ip_address f) = Inr True \<and> save_fault e = WriteOk
            \<and> has_bucket (snd (increment_usage e user_id ip_address f)) date_key"
    using that assms
    by (auto simp: increment_usage_def increment_loaded_def Let_def save_usage_data_def
        has_bucket_def cleanup_old_data_def get_today_key_def split: sum.splits if_splits)
qed

theorem eviction_stored_by_accepted_commit_witness:
  "fst (increment_usage env_ok None ip_a file_old_bucket) = Inr True
   \<and> has_bucket (snd (increment_usage env_ok None ip_a file_old_bucket)) ''2024-03-10''
   \<and> \<not> has_bucket (snd (increment_usage env_ok None ip_a file_old_bucket)) ''2024-01-01''
   \<and> cutoff_key env_ok \<le> ''2024-03-10''
   \<and> fst (increment_usage env_ok None ip_a file_ip_used) = Inr False
   \<and> snd (increment_usage env_ok None ip_a file_ip_used) = file_ip_used"
  using eviction_stored_by_accepted_commit [of env_ok None ip_a file_old_bucket Map.empty "''2024-03-10''"]
    eviction_stored_by_accepted_commit [of env_ok None ip_a file_ip_used Map.empty "''2024-03-10''"]
  by (simp add: tracker_defs sample_defs Let_def)

text \<open>
  \<open>_load_usage_data\<close> catches \<open>FileNotFoundError\<close> and \<open>JSONDecodeError\<close> only: when
  opening the existing file raises \<open>PermissionError\<close>, the check raises it.
\<close>

theorem check_raises_counterexample:
  "check_usage_limit env_denied None ip_a Unparsable = (Inl PermissionError, Unparsable)"
  by (simp add: tracker_defs sample_defs)

text \<open>
  C8, amended. When the usage file is absent, or is there and does not parse as JSON, a check
  reports no usage and allows the generation: \<open>(True, 0, limit)\<close>. When opening the
  existing file raises another \<open>OSError\<close>, the exception leaves \<open>check_usage_limit\<close>.
\<close>

theorem check_fail_open:
  shows "(f = Missing \<or> f = Unparsable \<and> \<not> read_denied e \<longrightarrow>
            check_usage_limit e user_id ip_address f
              = (Inr (True, 0, limits (user_type_of user_id)), f))
       \<and> (f \<noteq> Missing \<and> read_denied e \<longrightarrow>
            check_usage_limit e user_id ip_address f = (Inl PermissionError, f))"
  by (cases f; cases "user_type_of user_id")
     (simp_all add: check_usage_limit_def load_usage_data_def cleanup_old_data_def Let_def
        get_bucket_def get_count_def)

theorem check_fail_open_witness:
  "check_usage_limit env_ok None ip_a Missing = (Inr (True, 0, 1), Missing)
   \<and> check_usage_limit env_ok (Some ''u1'') None Unparsable = (Inr (True, 0, 5), Unparsable)
   \<and> check_usage_limit env_denied None ip_a file_ip_used = (Inl PermissionError, file_ip_used)"
  using check_fail_open [of Missing env_ok None ip_a]
    check_fail_open [of Unparsable env_ok "Some ''u1''" None]
    check_fail_open [of file_ip_used env_denied None ip_a]
  by (simp add: sample_defs user_type_of_def)

lemma reset_usage_ok:
  assumes "\<not> read_denied e" "save_fault e = WriteOk"
  shows "reset_usage e u i f =
     (True, case f of
        Stored d \<Rightarrow> (case d (get_today_key e) of
                       None \<Rightarrow> f
                     | Some b \<Rightarrow> Stored (d(get_today_key e \<mapsto> b(identity_key u i := None))))
      | _ \<Rightarrow> f)"
  using assms
  by (cases f)
     (auto simp: reset_usage_def load_usage_data_def save_usage_data_def Let_def fun_upd_idem
        split: option.splits)

text \<open>
  C9. Resetting twice leaves the file that resetting once leaves. With no I/O failure both
  calls return \<open>True\<close>; a reset of an identity that has no entry for today changes
  nothing, and so does the second of two resets; after the reset the identity has no entry
  for today, its stored count is 0 and a check reports \<open>(True, 0, limit)\<close>; every other
  entry of the file, under any date and any identity key, and every bucket is as before.
\<close>

theorem reset_usage_idempotent:
  shows "snd (reset_usage e user_id ip_address (snd (reset_usage e user_id ip_address f)))
           = snd (reset_usage e user_id ip_address f)
       \<and> (\<not> read_denied e \<and> save_fault e = WriteOk \<longrightarrow>
            fst (reset_usage e user_id ip_address f) = True
          \<and> fst (reset_usage e user_id ip_address (snd (reset_usage e user_id ip_address f))) = True
          \<and> stored_count e user_id ip_address (snd (reset_usage e user_id ip_address f)) = 0
          \<and> fst (check_usage_limit e user_id ip_address (snd (reset_usage e user_id ip_address f)))
              = Inr (True, 0, limits (user_type_of user_id))
          \<and> (stored_entry f (get_today_key e) (identity_key user_id ip_address) = None \<longrightarrow>
               reset_usage e user_id ip_address f = (True, f))
          \<and> reset_usage e user_id ip_address (snd (reset_usage e user_id ip_address f))
              = (True, snd (reset_usage e user_id ip_address f))
          \<and> stored_entry (snd (reset_usage e user_id ip_address f))
               (get_today_key e) (identity_key user_id ip_address) = None
          \<and> ((date_key, k) \<noteq> (get_today_key e, identity_key user_id ip_address) \<longrightarrow>
               stored_entry (snd (reset_usage e user_id ip_address f)) date_key k
                 = stored_entry f date_key k)
          \<and> has_bucket (snd (reset_usage e user_id ip_address f)) date_key = has_bucket f date_key)"
proof (intro conjI impI)
  show "snd (reset_usage e user_id ip_address (snd (reset_usage e user_id ip_address f)))
           = snd (reset_usage e user_id ip_address f)"
    by (cases f; cases "save_fault e"; cases "read_denied e")
       (auto simp: reset_usage_def load_usage_data_def save_usage_data_def Let_def
          split: option.splits)
next
  assume ok: "\<not> read_denied e \<and> save_fault e = WriteOk"
  then have rd: "\<not> read_denied e" and wr: "save_fault e = WriteOk" by simp_all
  note r = reset_usage_ok[OF rd wr]
  show "fst (reset_usage e user_id ip_address f) = True"
    by (simp add: r)
  show "fst (reset_usage e user_id ip_address (snd (reset_usage e user_id ip_address f))) = True"
    by (simp add: r)
  show "stored_count e user_id ip_address (snd (reset_usage e user_id ip_address f)) = 0"
    by (cases f) (auto simp: r stored_count_def get_bucket_def get_count_def split: option.splits)
  show "fst (check_usage_limit e user_id ip_address (snd (reset_usage e user_id ip_address f)))
              = Inr (True, 0, limits (user_type_of user_id))"
    using ok
    by (cases f; cases "user_type_of user_id")
       (auto simp: reset_usage_def load_usage_data_def save_usage_data_def Let_def
        check_usage_limit_def cleanup_old_data_def get_bucket_def get_count_def
        split: option.splits)
  show "reset_usage e user_id ip_address f = (True, f)"
    if "stored_entry f (get_today_key e) (identity_key user_id ip_address) = None"
    using that
    by (cases f) (auto simp: r stored_entry_def map_upd_triv fun_upd_idem split: option.splits)
  show "stored_entry (snd (reset_usage e user_id ip_address f))
               (get_today_key e) (identity_key user_id ip_address) = None"
    by (cases f) (auto simp: r stored_entry_def split: option.splits)
  show "reset_usage e user_id ip_address (snd (reset_usage e user_id ip_address f))
              = (True, snd (reset_usage e user_id ip_address f))"
    by (cases f) (auto simp: r map_upd_triv fun_upd_idem split: option.splits)
  show "stored_entry (snd (reset_usage e user_id ip_address f)) date_key k
                 = stored_entry f date_key k"
    if "(date_key, k) \<noteq> (get_today_key e, identity_key user_id ip_address)"
    using that
    by (cases f) (auto simp: r stored_entry_def split: option.splits)
  show "has_bucket (snd (reset_usage e user_id ip_address f)) date_key = has_bucket f date_key"
    by (cases f) (auto simp: r has_bucket_def split: option.splits)
qed

theorem reset_usage_idempotent_witness:
  "snd (reset_usage env_ok None ip_a (snd (reset_usage env_ok None ip_a file_ip_used)))
     = snd (reset_usage env_ok None ip_a file_ip_used)
   \<and> stored_count env_ok None ip_a file_ip_used = 1
   \<and> stored_count env_ok None ip_a (snd (reset_usage env_ok None ip_a file_ip_used)) = 0
   \<and> fst (check_usage_limit env_ok None ip_a (snd (reset_usage env_ok None ip_a file_ip_used)))
       = Inr (True, 0, 1)
   \<and> stored_entry file_u1_two ''2024-03-10'' ''ip:203.0.113.5'' = None
   \<and> reset_usage env_ok None ip_a file_u1_two = (True, file_u1_two)
   \<and> stored_entry file_two_ids ''2024-03-10'' ''ip:203.0.113.5'' = Some 1
   \<and> stored_entry (snd (reset_usage env_ok None ip_a file_two_ids)) ''2024-03-10'' ''ip:203.0.113.5'' = None
   \<and> stored_entry (snd (reset_usage env_ok None ip_a file_two_ids)) ''2024-03-10'' ''user:u1'' = Some 2
   \<and> stored_entry (snd (reset_usage env_ok None ip_a file_two_ids)) ''2024-03-09'' ''ip:203.0.113.5'' = Some 1
   \<and> has_bucket (snd (reset_usage env_ok None ip_a file_two_ids)) ''2024-03-09''"
  using reset_usage_idempotent [of env_ok None ip_a file_ip_used]
    reset_usage_idempotent [of env_ok None ip_a file_u1_two]
    reset_usage_idempotent [of env_ok None ip_a file_two_ids "''2024-03-10''" "''user:u1''"]
    reset_usage_idempotent [of env_ok None ip_a file_two_ids "''2024-03-09''" "''ip:203.0.113.5''"]
  by (simp add: sample_defs user_type_of_def stored_count_def
      get_today_key_def get_bucket_def get_count_def identity_key_def stored_entry_def has_bucket_def)

text \<open>
  When the save fails after \<open>open(..., 'w')\<close> has truncated the file (disk full), the
  commit returns \<open>True\<close> and the file no longer parses: the next load sees an empty ledger,
  and a count that was 2 reads as 0, not as its prior value.
\<close>

theorem save_failure_loses_ledger_counterexample:
  "stored_count env_disk_full (Some ''u1'') None file_u1_two = 2
   \<and> fst (increment_usage env_disk_full (Some ''u1'') None file_u1_two) = Inr True
   \<and> snd (increment_usage env_disk_full (Some ''u1'') None file_u1_two) = Unparsable
   \<and> fst (check_usage_limit env_ok (Some ''u1'') None
            (snd (increment_usage env_disk_full (Some ''u1'') None file_u1_two))) = Inr (True, 0, 5)"
  by (simp add: tracker_defs sample_defs Let_def)

text \<open>
  C10, amended. When the count is below the limit and the save fails, \<open>increment_usage\<close>
  still returns \<open>True\<close> and the increment is not stored: if \<open>open\<close> raised, the file is as
  it was (the count is its prior value on the next load); if the write raised after the file
  was truncated, the file does not parse and the next load finds the count 0.
\<close>

theorem increment_usage_save_failure:
  assumes "\<not> read_denied e" and "cutoff_key e \<le> today_key e"
    and "stored_count e user_id ip_address f < limits (user_type_of user_id)"
    and "save_fault e \<noteq> WriteOk"
  shows "fst (increment_usage e user_id ip_address f) = Inr True
       \<and> (save_fault e = OpenFails \<longrightarrow> snd (increment_usage e user_id ip_address f) = f)
       \<and> (save_fault e = DumpFails \<longrightarrow>
            snd (increment_usage e user_id ip_address f) = Unparsable
          \<and> stored_count e user_id ip_address (snd (increment_usage e user_id ip_address f)) = 0)"
proof -
  from loaded_count[OF assms(1,2)] obtain d where
    d: "load_usage_data e f = Inr d"
    "get_count (get_bucket (cleanup_old_data e d) (get_today_key e)) (identity_key user_id ip_address)
       = stored_count e user_id ip_address f"
    by blast
  have pos: "0 < limits (user_type_of user_id)" by (cases "user_type_of user_id") simp_all
  show ?thesis
  proof (cases "save_fault e")
    case WriteOk
    with assms(4) show ?thesis by simp
  next
    case OpenFails
    then show ?thesis using d assms(3)
      by (simp add: increment_usage_def increment_loaded_def Let_def save_usage_data_def)
  next
    case DumpFails
    then show ?thesis using d assms(3)
      by (simp add: increment_usage_def increment_loaded_def Let_def save_usage_data_def
          stored_count_def)
  qed
qed

theorem increment_usage_save_failure_witness:
  "fst (increment_usage (env_ok\<lparr>save_fault := OpenFails\<rparr>) (Some ''u1'') None file_u1_two) = Inr True
   \<and> snd (increment_usage (env_ok\<lparr>save_fault := OpenFails\<rparr>) (Some ''u1'') None file_u1_two) = file_u1_two
   \<and> fst (increment_usage env_disk_full (Some ''u1'') None file_u1_two) = Inr True
   \<and> snd (increment_usage env_disk_full (Some ''u1'') None file_u1_two) = Unparsable"
  using increment_usage_save_failure [of "env_ok\<lparr>save_fault := OpenFails\<rparr>" "Some ''u1''" None file_u1_two]
    increment_usage_save_failure [of env_disk_full "Some ''u1''" None file_u1_two]
  by (simp add: sample_defs user_type_of_def stored_count_def get_today_key_def get_bucket_def
      get_count_def identity_key_def)

section \<open>Properties of the persistent storage\<close>

lemmas storage_defs = temp_path_def backup_path_def path_exists_def os_replace_def write_step1_def
  write_step2_def write_step3_def write_except_def write_json_atomic_def read_json_safe_def

lemmas storage_samples = store_def image_a_def image_b_def fs_one_image_def fs_with_backup_def
  fs_generations_def fs_interrupted_def

lemma path_neq [simp]:
  "temp_path p \<noteq> p" "p \<noteq> temp_path p"
  "backup_path p \<noteq> p" "p \<noteq> backup_path p"
  "temp_path p \<noteq> backup_path p" "backup_path p \<noteq> temp_path p"
  by (simp_all add: temp_path_def backup_path_def)

lemma map_of_os_replace:
  "map_of files src = Some c \<Longrightarrow> src \<noteq> dst \<Longrightarrow>
     map_of (os_replace src dst files) = (map_of files)(dst \<mapsto> c, src := None)"
  by (simp add: os_replace_def AList.delete_conv' AList.update_conv')

lemma map_of_write_except:
  "map_of (write_except p files) = (map_of files)(temp_path p := None)"
  by (auto simp: write_except_def path_exists_def AList.delete_conv')

text \<open>
  C1, not met by the code. A write of the images file that stops after step 2 leaves
  no file at the target path and the old list in \<open>.backup\<close>. \<open>_read_json_safe\<close> then
  returns the empty default: the backup is read only in the \<open>except\<close> block, and a missing
  file raises nothing.
\<close>

theorem read_after_interrupted_write_ignores_backup:
  "map_of fs_interrupted (images_file store) = None
   \<and> map_of fs_interrupted (backup_path (images_file store)) = Some (Doc (JArr [image_a]))
   \<and> read_json_safe (images_file store) (Some (JArr [])) fs_interrupted = JArr []"
  by (simp add: storage_defs storage_samples)

text \<open>The two halves of the read: an absent file gives the default, a file that does not
  parse gives the backup when the backup parses.\<close>

lemma read_json_safe_absent:
  "map_of files p = None \<Longrightarrow>
     read_json_safe p dflt files = (case dflt of None \<Rightarrow> JArr [] | Some d \<Rightarrow> d)"
  by (simp add: read_json_safe_def)

lemma read_json_safe_recovers_unparsable:
  "map_of files p = Some Garbage \<Longrightarrow> map_of files (backup_path p) = Some (Doc j) \<Longrightarrow>
     read_json_safe p dflt files = j"
  by (simp add: read_json_safe_def)

text \<open>
  When step 3 raises after step 2 has renamed the target, the target path is left without a
  file and \<open>.backup\<close> holds the former target, not the former backup.
\<close>

theorem failed_final_replace_counterexample:
  "fst (write_json_atomic FinalReplaceFails (images_file store) (JArr []) fs_with_backup) = Some OSError
   \<and> map_of fs_with_backup (images_file store) = Some (Doc (JArr [image_a, image_b]))
   \<and> map_of (snd (write_json_atomic FinalReplaceFails (images_file store) (JArr []) fs_with_backup))
        (images_file store) = None
   \<and> map_of fs_with_backup (backup_path (images_file store)) = Some (Doc (JArr [image_a]))
   \<and> map_of (snd (write_json_atomic FinalReplaceFails (images_file store) (JArr []) fs_with_backup))
        (backup_path (images_file store)) = Some (Doc (JArr [image_a, image_b]))"
  by (simp add: storage_defs storage_samples)

lemma map_of_write_step1:
  "map_of (write_step1 p data files) = (map_of files)(temp_path p \<mapsto> Doc data)"
  by (simp add: write_step1_def AList.update_conv')

lemma map_of_write_step2:
  "map_of (write_step2 p (write_step1 p data files)) =
      (if path_exists files p
       then (map_of files)(temp_path p \<mapsto> Doc data, backup_path p := map_of files p, p := None)
       else (map_of files)(temp_path p \<mapsto> Doc data))"
proof (cases "map_of files p")
  case None
  then show ?thesis
    by (simp add: write_step2_def path_exists_def map_of_write_step1)
next
  case (Some c)
  then have "map_of (write_step1 p data files) p = Some c"
    by (simp add: map_of_write_step1)
  from map_of_os_replace[OF this, of "backup_path p"] Some show ?thesis
    by (simp add: write_step2_def path_exists_def map_of_write_step1)
qed

lemma write_json_atomic_cases:
  "write_json_atomic TempOpenFails p data files = (Some OSError, write_except p files)"
  "write_json_atomic TempDumpFails p data files =
     (Some OSError, write_except p (AList.update (temp_path p) Garbage files))"
  "write_json_atomic BackupReplaceFails p data files =
     (if path_exists files p then (Some OSError, write_except p (write_step1 p data files))
      else (None, write_step3 p (write_step2 p (write_step1 p data files))))"
  "write_json_atomic FinalReplaceFails p data files =
     (Some OSError, write_except p (write_step2 p (write_step1 p data files)))"
  "write_json_atomic NoFault p data files =
     (None, write_step3 p (write_step2 p (write_step1 p data files)))"
  by (simp_all add: write_json_atomic_def Let_def path_exists_def map_of_write_step1)

text \<open>
  C4, amended. When \<open>_write_json_atomic\<close> raises, the temporary file is gone. If step 1 or
  step 2 raised, or step 3 raised and there was no file at the target path, the target path
  and \<open>.backup\<close> hold what they held before. If step 3 raised after step 2 renamed an
  existing target, the target path holds nothing and \<open>.backup\<close> holds the former target.
\<close>

theorem write_json_atomic_failure:
  assumes "write_json_atomic flt p data files = (Some x, files')"
  shows "map_of files' (temp_path p) = None
       \<and> (flt \<noteq> FinalReplaceFails \<or> \<not> path_exists files p \<longrightarrow>
            map_of files' p = map_of files p
          \<and> map_of files' (backup_path p) = map_of files (backup_path p))
       \<and> (flt = FinalReplaceFails \<and> path_exists files p \<longrightarrow>
            map_of files' p = None
          \<and> map_of files' (backup_path p) = map_of files p)"
proof (cases flt)
  case NoFault
  with assms show ?thesis by (simp add: write_json_atomic_cases)
next
  case TempOpenFails
  with assms have "files' = write_except p files" by (simp add: write_json_atomic_cases)
  then show ?thesis using TempOpenFails by (simp add: map_of_write_except)
next
  case TempDumpFails
  with assms have "files' = write_except p (AList.update (temp_path p) Garbage files)"
    by (simp add: write_json_atomic_cases)
  then show ?thesis using TempDumpFails by (simp add: map_of_write_except AList.update_conv')
next
  case BackupReplaceFails
  with assms have "files' = write_except p (write_step1 p data files)"
    by (simp add: write_json_atomic_cases split: if_splits)
  then show ?thesis using BackupReplaceFails by (simp add: map_of_write_except map_of_write_step1)
next
  case FinalReplaceFails
  with assms have "files' = write_except p (write_step2 p (write_step1 p data files))"
    by (simp add: write_json_atomic_cases)
  then show ?thesis using FinalReplaceFails
    by (simp add: map_of_write_except map_of_write_step2)
qed

lemma write_json_atomic_raises_iff:
  "fst (write_json_atomic flt p data files) \<noteq> None \<longleftrightarrow>
     flt = TempOpenFails \<or> flt = TempDumpFails \<or> flt = FinalReplaceFails
     \<or> (flt = BackupReplaceFails \<and> path_exists files p)"
  by (cases flt) (simp_all add: write_json_atomic_cases)

theorem write_json_atomic_failure_witness:
  "fst (write_json_atomic TempDumpFails (images_file store) (JArr []) fs_with_backup) = Some OSError
   \<and> map_of (snd (write_json_atomic TempDumpFails (images_file store) (JArr []) fs_with_backup))
        (temp_path (images_file store)) = None
   \<and> map_of (snd (write_json_atomic TempDumpFails (images_file store) (JArr []) fs_with_backup))
        (images_file store) = map_of fs_with_backup (images_file store)
   \<and> map_of (snd (write_json_atomic FinalReplaceFails (images_file store) (JArr []) fs_with_backup))
        (backup_path (images_file store)) = map_of fs_with_backup (images_file store)"
proof -
  have e1: "write_json_atomic TempDumpFails (images_file store) (JArr []) fs_with_backup =
      (Some OSError, snd (write_json_atomic TempDumpFails (images_file store) (JArr []) fs_with_backup))"
    by (simp add: write_json_atomic_cases)
  have e2: "write_json_atomic FinalReplaceFails (images_file store) (JArr []) fs_with_backup =
      (Some OSError, snd (write_json_atomic FinalReplaceFails (images_file store) (JArr []) fs_with_backup))"
    by (simp add: write_json_atomic_cases)
  have ex: "path_exists fs_with_backup (images_file store)"
    by (simp add: path_exists_def store_def fs_with_backup_def)
  show ?thesis
    using write_json_atomic_failure [OF e1] write_json_atomic_failure [OF e2] ex
    by (simp add: write_json_atomic_cases)
qed

text \<open>
  C5, not met by \<open>save_generation_record\<close>: with a write that raises
  (the temporary file cannot be opened), the call returns normally, and the generations
  file still holds the empty list. \<open>save_image\<close> raises the error again.
\<close>

theorem save_generation_record_swallows_write_failure:
  "fst (write_json_atomic TempOpenFails (generations_file store)
          (JArr [JObj [(''id'', JStr ''alice#t1''), (''user_id'', JStr ''alice''),
                       (''image_id'', JStr ''img-1''), (''timestamp'', JStr ''t2''),
                       (''parameters'', JObj [])]]) fs_generations) = Some OSError
   \<and> save_generation_record store TempOpenFails ''t1'' ''t2'' ''alice'' ''img-1'' [] fs_generations
       = (None, fs_generations)
   \<and> read_json_safe (generations_file store) (Some (JArr [])) fs_generations = JArr []"
  by (simp add: storage_defs storage_samples save_generation_record_def)

lemma save_generation_record_returns:
  "fst (save_generation_record self flt now1 now2 user_id image_id params files) = None"
  by (simp add: save_generation_record_def Let_def split: json.splits prod.splits)

lemma save_image_propagates:
  assumes "read_json_safe (images_file self) (Some (JArr [])) files = JArr loaded"
    and "fst (write_json_atomic flt (images_file self) (JArr (loaded @ [JObj image_metadata])) files) = Some x"
  shows "fst (save_image self flt b image_metadata files) = Some x"
proof -
  obtain r files1 where w:
    "write_json_atomic flt (images_file self) (JArr (loaded @ [JObj image_metadata])) files = (r, files1)"
    by (cases "write_json_atomic flt (images_file self) (JArr (loaded @ [JObj image_metadata])) files")
  with assms(2) have "r = Some x" by simp
  with w assms(1) show ?thesis by (simp add: save_image_def Let_def)
qed

lemma favorite_loop_no_match:
  assumes "\<forall>kv. JObj kv \<in> set rest \<longrightarrow>
      \<not> (map_of kv ''id'' = Some (JStr image_id) \<and> map_of kv ''user_id'' = Some (JStr user_id))"
  shows "favorite_loop flt file_path image_id user_id v seen rest files = (False, files)"
  using assms
proof (induction rest arbitrary: seen)
  case Nil
  then show ?case by simp
next
  case (Cons img rest)
  show ?case
  proof (cases img)
    case (JObj kv)
    with Cons.prems have nm:
      "\<not> (map_of kv ''id'' = Some (JStr image_id) \<and> map_of kv ''user_id'' = Some (JStr user_id))"
      by simp
    have ih: "favorite_loop flt file_path image_id user_id v (seen @ [img]) rest files = (False, files)"
      by (rule Cons.IH) (use Cons.prems in simp)
    show ?thesis
      unfolding JObj
      by (simp only: favorite_loop.simps json.case nm if_False ih [unfolded JObj])
  qed simp_all
qed

text \<open>
  C7. Let the images file hold a record with the given id that is the only one with that id
  and whose \<open>user_id\<close> is not the caller. Then \<open>update_image_favorite\<close> with that id and
  the caller returns \<open>False\<close> and leaves every file as it was, which is also what it does
  for an id that no record has.
\<close>

theorem update_image_favorite_not_owner:
  assumes "read_json_safe (images_file self) (Some (JArr [])) files = JArr images"
    and "JObj r \<in> set images"
    and "map_of r ''id'' = Some (JStr image_id)"
    and "map_of r ''user_id'' \<noteq> Some (JStr caller)"
    and "\<forall>kv. JObj kv \<in> set images \<and> map_of kv ''id'' = Some (JStr image_id) \<longrightarrow> kv = r"
  shows "update_image_favorite self flt image_id caller is_favorite files = (False, files)
       \<and> ((\<forall>kv. JObj kv \<in> set images \<longrightarrow> map_of kv ''id'' \<noteq> Some (JStr absent_id)) \<longrightarrow>
            update_image_favorite self flt absent_id caller is_favorite files = (False, files))"
proof (intro conjI impI)
  have "\<forall>kv. JObj kv \<in> set images \<longrightarrow>
      \<not> (map_of kv ''id'' = Some (JStr image_id) \<and> map_of kv ''user_id'' = Some (JStr caller))"
    using assms(4,5) by blast
  from favorite_loop_no_match[OF this] assms(1)
  show "update_image_favorite self flt image_id caller is_favorite files = (False, files)"
    by (simp add: update_image_favorite_def)
next
  assume "\<forall>kv. JObj kv \<in> set images \<longrightarrow> map_of kv ''id'' \<noteq> Some (JStr absent_id)"
  then have "\<forall>kv. JObj kv \<in> set images \<longrightarrow>
      \<not> (map_of kv ''id'' = Some (JStr absent_id) \<and> map_of kv ''user_id'' = Some (JStr caller))"
    by blast
  from favorite_loop_no_match[OF this] assms(1)
  show "update_image_favorite self flt absent_id caller is_favorite files = (False, files)"
    by (simp add: update_image_favorite_def)
qed

theorem update_image_favorite_not_owner_witness:
  "update_image_favorite store NoFault ''img-1'' ''bob'' True fs_with_backup = (False, fs_with_backup)
   \<and> update_image_favorite store NoFault ''img-9'' ''bob'' True fs_with_backup = (False, fs_with_backup)
   \<and> fst (update_image_favorite store NoFault ''img-1'' ''alice'' True fs_with_backup) = True"
proof -
  let ?a = "[(''id'', JStr ''img-1''), (''user_id'', JStr ''alice''), (''is_favorite'', JBool False)]"
  let ?b = "[(''id'', JStr ''img-2''), (''user_id'', JStr ''bob''), (''is_favorite'', JBool False)]"
  have r: "read_json_safe (images_file store) (Some (JArr [])) fs_with_backup = JArr [JObj ?a, JObj ?b]"
    by (simp add: read_json_safe_def store_def fs_with_backup_def image_a_def image_b_def)
  have h2: "JObj ?a \<in> set [JObj ?a, JObj ?b]" by simp
  have h3: "map_of ?a ''id'' = Some (JStr ''img-1'')" by simp
  have h4: "map_of ?a ''user_id'' \<noteq> Some (JStr ''bob'')" by simp
  have h5: "\<forall>kv. JObj kv \<in> set [JObj ?a, JObj ?b] \<and> map_of kv ''id'' = Some (JStr ''img-1'') \<longrightarrow> kv = ?a"
    by auto
  have h6: "\<forall>kv. JObj kv \<in> set [JObj ?a, JObj ?b] \<longrightarrow> map_of kv ''id'' \<noteq> Some (JStr ''img-9'')"
    by auto
  have owner: "fst (update_image_favorite store NoFault ''img-1'' ''alice'' True fs_with_backup) = True"
    by (simp add: update_image_favorite_def r write_json_atomic_cases)
  from update_image_favorite_not_owner [OF r h2 h3 h4 h5, of NoFault True "''img-9''"] h6 owner
  show ?thesis by blast
qed

end
